theory Spec2Isabelle
  imports Main
begin

section \<open>The notes widget of \<^verbatim>\<open>src/project/src/App.tsx\<close>\<close>

text \<open>
  The component \<^verbatim>\<open>App\<close> keeps three pieces of React state: the collection
  \<^verbatim>\<open>notes\<close>, the note shown in the detail pane \<^verbatim>\<open>activeNote\<close> (or
  \<^verbatim>\<open>null\<close>) and the flag \<^verbatim>\<open>isEditing\<close>. Every handler is a function from
  the state of the render it was created in to the state of the next render; an effect
  writes the collection to \<^verbatim>\<open>localStorage\<close>. The model passes the state
  explicitly, and takes what a handler reads from the environment (the clock, the text
  typed into a field, the list item clicked) as an argument.
\<close>

subsection \<open>Data\<close>

text \<open>
  \<^verbatim>\<open>createdAt\<close> is declared a \<^verbatim>\<open>Date\<close>. A note built by
  \<^verbatim>\<open>createNewNote\<close> holds a \<^verbatim>\<open>Date\<close> object (its time value, in
  milliseconds since the epoch); a note read back by \<^verbatim>\<open>JSON.parse\<close> holds the
  string that \<^verbatim>\<open>JSON.stringify\<close> wrote for it, since nothing revives it. The
  field \<^verbatim>\<open>id\<close> is \<open>id_note\<close> here.
\<close>

datatype created = DateObj int | DateStr string

record Note =
  id_note :: string
  title :: string
  content :: string
  createdAt :: created

record app =
  "notes" :: "Note list"
  activeNote :: "Note option"
  isEditing :: bool

subsection \<open>\<^verbatim>\<open>Date.now().toString()\<close>\<close>

text \<open>
  \<^verbatim>\<open>Number.prototype.toString\<close> on an integer below \<open>10\<^sup>2\<^sup>1\<close> in absolute
  value (every time value is) writes its decimal digits, with a leading minus sign for a
  negative number.
\<close>

definition digit_char :: "nat \<Rightarrow> char" where
  "digit_char d = ''0123456789'' ! d"

function digits :: "nat \<Rightarrow> string" where
  "digits n = (if n < 10 then [digit_char n] else digits (n div 10) @ [digit_char (n mod 10)])"
  by pat_completeness auto
termination
  by (relation "measure (\<lambda>n. n)") auto

declare digits.simps [simp del]

definition toString :: "int \<Rightarrow> string" where
  "toString i = (if i < 0 then CHR ''-'' # digits (nat (- i)) else digits (nat i))"

subsection \<open>The handlers\<close>

text \<open>
  \<^verbatim>\<open>createNewNote\<close> reads the clock twice: \<^verbatim>\<open>Date.now()\<close> for the id and
  \<^verbatim>\<open>new Date()\<close> for the timestamp. Both readings are arguments. \<open>newNote\<close> is
  the object literal of the handler's first statement.
\<close>

definition newNote :: "int \<Rightarrow> int \<Rightarrow> Note" where
  "newNote now date =
     \<lparr>id_note = toString now, title = ''New Note'', content = '''', createdAt = DateObj date\<rparr>"

definition createNewNote :: "int \<Rightarrow> int \<Rightarrow> app \<Rightarrow> app" where
  "createNewNote now date s =
     s\<lparr>notes := newNote now date # notes s, activeNote := Some (newNote now date),
       isEditing := True\<rparr>"

definition updateNote :: "Note \<Rightarrow> app \<Rightarrow> app" where
  "updateNote updatedNote s =
     (let updatedNotes = map (\<lambda>n. if id_note n = id_note updatedNote then updatedNote else n)
                             (notes s)
      in s\<lparr>notes := updatedNotes, activeNote := Some updatedNote, isEditing := False\<rparr>)"

definition deleteNote :: "string \<Rightarrow> app \<Rightarrow> app" where
  "deleteNote i s =
     (let filteredNotes = filter (\<lambda>n. id_note n \<noteq> i) (notes s);
          s1 = s\<lparr>notes := filteredNotes\<rparr>
      in case activeNote s of
           None \<Rightarrow> s1
         | Some a \<Rightarrow>
             if id_note a = i
             then s1\<lparr>activeNote := (case filteredNotes of [] \<Rightarrow> None | n # _ \<Rightarrow> Some n),
                     isEditing := False\<rparr>
             else s1)"

text \<open>The \<^verbatim>\<open>onClick\<close> of a list item.\<close>

definition selectNote :: "Note \<Rightarrow> app \<Rightarrow> app" where
  "selectNote n s = s\<lparr>activeNote := Some n, isEditing := False\<rparr>"

text \<open>The \<^verbatim>\<open>onClick\<close> of the Edit button.\<close>

definition beginEdit :: "app \<Rightarrow> app" where
  "beginEdit s = s\<lparr>isEditing := True\<rparr>"

text \<open>
  The \<^verbatim>\<open>onChange\<close> of the title input and of the content textarea:
  \<^verbatim>\<open>setActiveNote({...activeNote, title: v})\<close> and the same for
  \<^verbatim>\<open>content\<close>. Both are rendered only inside the branch where
  \<^verbatim>\<open>activeNote\<close> is not null, so they take the active note.
\<close>

datatype field_edit = EditTitle string | EditContent string

fun editDraft :: "field_edit \<Rightarrow> Note \<Rightarrow> Note" where
  "editDraft (EditTitle v) a = a\<lparr>title := v\<rparr>"
| "editDraft (EditContent v) a = a\<lparr>content := v\<rparr>"

definition changeDraft :: "field_edit \<Rightarrow> Note \<Rightarrow> app \<Rightarrow> app" where
  "changeDraft f a s = s\<lparr>activeNote := Some (editDraft f a)\<rparr>"

text \<open>
  The \<^verbatim>\<open>onClick\<close> of the Cancel button:
  \<^verbatim>\<open>notes.find(note => note.id === activeNote.id) || null\<close>. A note object is
  truthy, so the result is the first entry with the id, or \<^verbatim>\<open>null\<close>.
\<close>

definition cancelEdit :: "Note \<Rightarrow> app \<Rightarrow> app" where
  "cancelEdit a s =
     s\<lparr>activeNote := find (\<lambda>n. id_note n = id_note a) (notes s), isEditing := False\<rparr>"

subsection \<open>User events\<close>

text \<open>
  What the user can do depends on what is rendered. The create button is always there;
  the list shows one item and one delete button per entry of \<^verbatim>\<open>notes\<close>; the
  detail pane exists only when \<^verbatim>\<open>activeNote\<close> is not null, and shows either the
  Edit button (not editing) or the two fields with Save and Cancel (editing). An event on
  a control that is not rendered cannot happen: \<open>fire\<close> returns \<open>None\<close>.
  \<open>ClickCreate\<close> carries the two clock readings of \<^verbatim>\<open>createNewNote\<close>;
  \<open>ClickNote k\<close> and \<open>ClickDelete k\<close> are the clicks on the list item at position
  \<open>k\<close> and on its delete button, which stops the click from reaching the item.
\<close>

datatype event =
    ClickCreate int int
  | ClickNote nat
  | ClickDelete nat
  | ClickEdit
  | Type field_edit
  | ClickSave
  | ClickCancel

fun fire :: "event \<Rightarrow> app \<Rightarrow> app option" where
  "fire (ClickCreate now date) s = Some (createNewNote now date s)"
| "fire (ClickNote k) s =
     (if k < length (notes s) then Some (selectNote (notes s ! k) s) else None)"
| "fire (ClickDelete k) s =
     (if k < length (notes s) then Some (deleteNote (id_note (notes s ! k)) s) else None)"
| "fire ClickEdit s =
     (case activeNote s of
        Some a \<Rightarrow> if isEditing s then None else Some (beginEdit s)
      | None \<Rightarrow> None)"
| "fire (Type f) s =
     (case activeNote s of
        Some a \<Rightarrow> if isEditing s then Some (changeDraft f a s) else None
      | None \<Rightarrow> None)"
| "fire ClickSave s =
     (case activeNote s of
        Some a \<Rightarrow> if isEditing s then Some (updateNote a s) else None
      | None \<Rightarrow> None)"
| "fire ClickCancel s =
     (case activeNote s of
        Some a \<Rightarrow> if isEditing s then Some (cancelEdit a s) else None
      | None \<Rightarrow> None)"

fun run :: "event list \<Rightarrow> app \<Rightarrow> app option" where
  "run [] s = Some s"
| "run (e # es) s = (case fire e s of None \<Rightarrow> None | Some s' \<Rightarrow> run es s')"

text \<open>The state of the first render, for the collection that was loaded.\<close>

definition initial :: "Note list \<Rightarrow> app" where
  "initial ns = \<lparr>notes = ns, activeNote = None, isEditing = False\<rparr>"

subsection \<open>Persistence\<close>

text \<open>
  \<^verbatim>\<open>localStorage\<close> maps keys to strings. The app stores one string, under the key
  \<^verbatim>\<open>'notes'\<close>, and reads it with \<^verbatim>\<open>JSON.parse\<close>, which belongs to the
  platform, as \<^verbatim>\<open>JSON.stringify\<close> does. A stored string is represented by what
  \<^verbatim>\<open>JSON.parse\<close> makes of it: the empty string, a JSON text (given by the value it
  denotes), or any other string, on which \<^verbatim>\<open>JSON.parse\<close> throws a
  \<^verbatim>\<open>SyntaxError\<close> (as it does on the empty string). \<^verbatim>\<open>JSON.stringify\<close>
  of a value is the JSON text that denotes it. A write to the storage is taken to
  succeed: the storage has no quota here.
\<close>

datatype json =
    JStr string
  | JArr "json list"
  | JObj "(string \<times> json) list"
  | JLit string \<comment> \<open>\<^verbatim>\<open>null\<close>, \<^verbatim>\<open>true\<close>, \<^verbatim>\<open>false\<close> or a number, by its text\<close>

datatype slot_text = EmptyText | JsonText json | OtherText

type_synonym storage = "string \<rightharpoonup> slot_text"

datatype load_error = SyntaxError | NotNotes

definition getItem :: "storage \<Rightarrow> string \<Rightarrow> slot_text option" where
  "getItem st k = st k"

definition setItem :: "storage \<Rightarrow> string \<Rightarrow> slot_text \<Rightarrow> storage" where
  "setItem st k v = st(k \<mapsto> v)"

definition JSON_parse :: "slot_text \<Rightarrow> load_error + json" where
  "JSON_parse t = (case t of JsonText d \<Rightarrow> Inr d | EmptyText \<Rightarrow> Inl SyntaxError
                   | OtherText \<Rightarrow> Inl SyntaxError)"

text \<open>
  \<^verbatim>\<open>JSON.stringify(notes)\<close> writes an array of objects, each with the four
  properties of a note in the order of the object literal in \<^verbatim>\<open>createNewNote\<close>
  (the spread in the \<^verbatim>\<open>onChange\<close> handlers keeps that order). A
  \<^verbatim>\<open>Date\<close> is written as the string its \<^verbatim>\<open>toJSON\<close> method returns,
  which is \<^verbatim>\<open>toISOString()\<close>; that platform function is the parameter
  \<open>toISO\<close>, from the time value to the string. A timestamp that is already a string is
  written as it is.
\<close>

definition toJSON_created :: "(int \<Rightarrow> string) \<Rightarrow> created \<Rightarrow> json" where
  "toJSON_created toISO c = (case c of DateObj ms \<Rightarrow> JStr (toISO ms) | DateStr t \<Rightarrow> JStr t)"

definition toJSON_note :: "(int \<Rightarrow> string) \<Rightarrow> Note \<Rightarrow> json" where
  "toJSON_note toISO n =
     JObj [(''id'', JStr (id_note n)), (''title'', JStr (title n)),
           (''content'', JStr (content n)), (''createdAt'', toJSON_created toISO (createdAt n))]"

definition JSON_stringify :: "(int \<Rightarrow> string) \<Rightarrow> Note list \<Rightarrow> slot_text" where
  "JSON_stringify toISO ns = JsonText (JArr (map (toJSON_note toISO) ns))"

text \<open>
  The result of \<^verbatim>\<open>JSON.parse\<close> becomes the state \<^verbatim>\<open>notes\<close> with no
  check. The model follows the program on the values of the shape that the app itself
  writes, an array of objects with the four string properties, and stops with
  \<open>NotNotes\<close> on any other value: what the component does with such a value is
  outside the type \<^verbatim>\<open>Note[]\<close> and is not modelled.
\<close>

definition asNote :: "json \<Rightarrow> Note option" where
  "asNote j =
     (case j of
        JObj [(k1, JStr i), (k2, JStr t), (k3, JStr c), (k4, JStr d)] \<Rightarrow>
          if k1 = ''id'' \<and> k2 = ''title'' \<and> k3 = ''content'' \<and> k4 = ''createdAt''
          then Some \<lparr>id_note = i, title = t, content = c, createdAt = DateStr d\<rparr>
          else None
      | _ \<Rightarrow> None)"

fun asNoteList :: "json list \<Rightarrow> Note list option" where
  "asNoteList [] = Some []"
| "asNoteList (j # js) =
     (case asNote j of
        None \<Rightarrow> None
      | Some n \<Rightarrow> (case asNoteList js of None \<Rightarrow> None | Some ns \<Rightarrow> Some (n # ns)))"

definition asNotes :: "json \<Rightarrow> load_error + Note list" where
  "asNotes j =
     (case j of
        JArr js \<Rightarrow> (case asNoteList js of None \<Rightarrow> Inl NotNotes | Some ns \<Rightarrow> Inr ns)
      | _ \<Rightarrow> Inl NotNotes)"

text \<open>
  The initializer of the \<^verbatim>\<open>notes\<close> state:
  \<^verbatim>\<open>savedNotes ? JSON.parse(savedNotes) : []\<close>. \<^verbatim>\<open>getItem\<close> returns
  \<^verbatim>\<open>null\<close> for a key that is absent; \<^verbatim>\<open>null\<close> and the empty string are
  falsy.
\<close>

definition loadNotes :: "storage \<Rightarrow> load_error + Note list" where
  "loadNotes st =
     (case getItem st ''notes'' of
        None \<Rightarrow> Inr []
      | Some savedNotes \<Rightarrow>
          if savedNotes = EmptyText then Inr []
          else (case JSON_parse savedNotes of Inl e \<Rightarrow> Inl e | Inr d \<Rightarrow> asNotes d))"

text \<open>The body of the effect.\<close>

definition saveNotes :: "(int \<Rightarrow> string) \<Rightarrow> Note list \<Rightarrow> storage \<Rightarrow> storage" where
  "saveNotes toISO ns st = setItem st ''notes'' (JSON_stringify toISO ns)"

text \<open>
  The effect has the dependency list \<^verbatim>\<open>[notes]\<close>: React runs it after the first
  render, and after a later render when \<^verbatim>\<open>notes\<close> is not the same array object
  as in the render before. The three handlers that call \<^verbatim>\<open>setNotes\<close> pass an
  array they have just built (\<^verbatim>\<open>[newNote, ...notes]\<close>,
  \<^verbatim>\<open>notes.map(...)\<close>, \<^verbatim>\<open>notes.filter(...)\<close>), so the effect runs after
  each of them; the other handlers leave \<^verbatim>\<open>notes\<close> alone, and it does not run.
  A system state is the component's state with the storage; mounting fails when the
  initializer throws.
\<close>

fun setsNotes :: "event \<Rightarrow> bool" where
  "setsNotes (ClickCreate now date) = True"
| "setsNotes ClickSave = True"
| "setsNotes (ClickDelete k) = True"
| "setsNotes (ClickNote k) = False"
| "setsNotes ClickEdit = False"
| "setsNotes (Type f) = False"
| "setsNotes ClickCancel = False"

definition mount :: "(int \<Rightarrow> string) \<Rightarrow> storage \<Rightarrow> load_error + app \<times> storage" where
  "mount toISO st =
     (case loadNotes st of
        Inl e \<Rightarrow> Inl e
      | Inr ns \<Rightarrow> Inr (initial ns, saveNotes toISO ns st))"

definition dispatch :: "(int \<Rightarrow> string) \<Rightarrow> event \<Rightarrow> app \<times> storage \<Rightarrow> (app \<times> storage) option" where
  "dispatch toISO e sys =
     (case fire e (fst sys) of
        None \<Rightarrow> None
      | Some s' \<Rightarrow>
          Some (s', if setsNotes e then saveNotes toISO (notes s') (snd sys) else snd sys))"

fun dispatchAll ::
  "(int \<Rightarrow> string) \<Rightarrow> event list \<Rightarrow> app \<times> storage \<Rightarrow> (app \<times> storage) option" where
  "dispatchAll toISO [] sys = Some sys"
| "dispatchAll toISO (e # es) sys =
     (case dispatch toISO e sys of None \<Rightarrow> None | Some sys' \<Rightarrow> dispatchAll toISO es sys')"

section \<open>Decimal strings\<close>

lemma digit_char_inj: "a < 10 \<Longrightarrow> b < 10 \<Longrightarrow> digit_char a = digit_char b \<Longrightarrow> a = b"
proof -
  assume a: "a < 10" and b: "b < 10" and eq: "digit_char a = digit_char b"
  have "distinct ''0123456789''" by simp
  moreover have "a < length ''0123456789''" "b < length ''0123456789''" using a b by simp_all
  ultimately show "a = b"
    using eq unfolding digit_char_def by (simp only: nth_eq_iff_index_eq)
qed

lemma digit_char_not_minus: "d < 10 \<Longrightarrow> digit_char d \<noteq> CHR ''-''"
proof -
  assume "d < 10"
  then have "''0123456789'' ! d \<in> set ''0123456789''" by (intro nth_mem) simp
  then show ?thesis unfolding digit_char_def by auto
qed

lemma digits_not_Nil: "digits n \<noteq> []"
  by (subst digits.simps) simp

lemma digits_long: "10 \<le> n \<Longrightarrow> 2 \<le> length (digits n)"
  using digits_not_Nil [of "n div 10"]
  by (subst digits.simps) (simp add: Suc_le_eq)

lemma digits_inj: "digits n = digits m \<Longrightarrow> n = m"
proof (induction n arbitrary: m rule: digits.induct)
  case (1 n)
  show ?case
  proof (cases "n < 10")
    case small_n: True
    show ?thesis
    proof (cases "m < 10")
      case True
      with small_n "1.prems" show ?thesis
        by (simp add: digits.simps [of n] digits.simps [of m] digit_char_inj)
    next
      case False
      then have "2 \<le> length (digits m)" by (simp add: digits_long)
      moreover from small_n have "length (digits n) = 1" by (simp add: digits.simps [of n])
      ultimately show ?thesis using "1.prems" by simp
    qed
  next
    case big_n: False
    show ?thesis
    proof (cases "m < 10")
      case True
      then have "length (digits m) = 1" by (simp add: digits.simps [of m])
      moreover from big_n have "2 \<le> length (digits n)" by (simp add: digits_long)
      ultimately show ?thesis using "1.prems" by simp
    next
      case False
      with big_n "1.prems"
      have eq: "digits (n div 10) = digits (m div 10)"
        and last: "digit_char (n mod 10) = digit_char (m mod 10)"
        by (simp_all add: digits.simps [of n] digits.simps [of m])
      from "1.IH" [OF big_n eq] have "n div 10 = m div 10" .
      moreover from last have "n mod 10 = m mod 10" by (simp add: digit_char_inj)
      ultimately show ?thesis by (metis div_mult_mod_eq)
    qed
  qed
qed

lemma digits_no_minus: "CHR ''-'' \<notin> set (digits n)"
proof (induction n rule: digits.induct)
  case (1 n)
  show ?case
  proof (cases "n < 10")
    case True
    then show ?thesis
      using digit_char_not_minus [of n] by (simp add: digits.simps [of n])
  next
    case False
    then show ?thesis
      using "1.IH" digit_char_not_minus [of "n mod 10"]
      by (simp add: digits.simps [of n])
  qed
qed

lemma toString_inj: "toString a = toString b \<Longrightarrow> a = b"
proof -
  assume eq: "toString a = toString b"
  have hd_digits: "\<And>n. hd (digits n) \<noteq> CHR ''-''"
    using digits_no_minus digits_not_Nil by (metis list.set_sel(1))
  show ?thesis
  proof (cases "a < 0")
    case neg_a: True
    show ?thesis
    proof (cases "b < 0")
      case True
      with neg_a eq have "nat (- a) = nat (- b)" by (simp add: toString_def digits_inj)
      with neg_a True show ?thesis by simp
    next
      case False
      with neg_a eq have "hd (digits (nat b)) = CHR ''-''" by (simp add: toString_def) (metis list.sel(1))
      with hd_digits show ?thesis by simp
    qed
  next
    case pos_a: False
    show ?thesis
    proof (cases "b < 0")
      case True
      with pos_a eq have "hd (digits (nat a)) = CHR ''-''" by (simp add: toString_def)
      with hd_digits show ?thesis by simp
    next
      case False
      with pos_a eq have "nat a = nat b" by (simp add: toString_def digits_inj)
      with pos_a False show ?thesis by simp
    qed
  qed
qed

section \<open>Creating a note\<close>

text \<open>
  C8. \<^verbatim>\<open>createNewNote\<close> builds a note with the title "New Note", empty content
  and the current time as its creation timestamp (its id is the decimal string of the
  clock reading), puts it in front of the collection, makes it the active note and sets
  the editing flag. The create button is rendered in every state.
\<close>

theorem C8_create_enters_editing:
  "fire (ClickCreate now date) s = Some (createNewNote now date s)
   \<and> notes (createNewNote now date s) =
       \<lparr>id_note = toString now, title = ''New Note'', content = '''',
        createdAt = DateObj date\<rparr> # notes s
   \<and> activeNote (createNewNote now date s) =
       Some \<lparr>id_note = toString now, title = ''New Note'', content = '''',
             createdAt = DateObj date\<rparr>
   \<and> isEditing (createNewNote now date s)"
  by (simp add: createNewNote_def newNote_def)

text \<open>A create from the empty collection; the timestamp is read a millisecond later.\<close>

theorem C8_create_enters_editing_witness:
  "fire (ClickCreate 1700000000000 1700000000001) (initial []) =
     Some \<lparr>notes = [\<lparr>id_note = ''1700000000000'', title = ''New Note'', content = '''',
                      createdAt = DateObj 1700000000001\<rparr>],
           activeNote = Some \<lparr>id_note = ''1700000000000'', title = ''New Note'', content = '''',
                                createdAt = DateObj 1700000000001\<rparr>,
           isEditing = True\<rparr>"
proof -
  have id: "toString 1700000000000 = ''1700000000000''"
    by (simp add: toString_def digits.simps digit_char_def)
  have new: "createNewNote 1700000000000 1700000000001 (initial []) =
     \<lparr>notes = [\<lparr>id_note = ''1700000000000'', title = ''New Note'', content = '''',
                createdAt = DateObj 1700000000001\<rparr>],
      activeNote = Some \<lparr>id_note = ''1700000000000'', title = ''New Note'', content = '''',
                          createdAt = DateObj 1700000000001\<rparr>,
      isEditing = True\<rparr>"
    by (simp add: createNewNote_def newNote_def initial_def id)
  from C8_create_enters_editing [of 1700000000000 1700000000001 "initial []"]
  have "fire (ClickCreate 1700000000000 1700000000001) (initial []) =
          Some (createNewNote 1700000000000 1700000000001 (initial []))"
    by (rule conjunct1)
  then show ?thesis by (simp only: new)
qed

lemma run_creates:
  "\<exists>s'. run (map (\<lambda>(now, date). ClickCreate now date) ts) s = Some s'
        \<and> notes s' = rev (map (\<lambda>(now, date). newNote now date) ts) @ notes s"
proof (induction ts arbitrary: s)
  case Nil
  show ?case by simp
next
  case (Cons t ts)
  obtain now date where t: "t = (now, date)" by (cases t)
  from Cons.IH [of "createNewNote now date s"] show ?case
    by (auto simp: t createNewNote_def)
qed

lemma ids_of_new_notes:
  "map id_note (map (\<lambda>(now, date). newNote now date) ts) = map (toString \<circ> fst) ts"
  by (induction ts) (auto simp: newNote_def)

lemma distinct_new_ids: "distinct (map (toString \<circ> fst) ts) = distinct (map fst ts)"
proof -
  have "inj toString" by (rule injI) (rule toString_inj)
  then have "distinct (map toString (map fst ts)) = distinct (map fst ts)"
    by (simp only: distinct_map) (auto simp: inj_on_def)
  then show ?thesis by simp
qed

text \<open>
  C1, as the code has it. A sequence of N creates, each given by the two clock readings
  of its handler, always succeeds; the resulting collection has N more entries than
  before, and they are the new notes, the most recently created first, in front of the
  old entries. An id is the decimal string of \<^verbatim>\<open>Date.now()\<close>, so the ids of the
  resulting collection are pairwise distinct exactly when the ids of the starting
  collection are pairwise distinct, the \<^verbatim>\<open>Date.now()\<close> readings of the N creates
  are pairwise distinct, and the decimal string of no reading is already an id of the
  starting collection.
\<close>

theorem C1_creates_prepend:
  "\<exists>s'. run (map (\<lambda>(now, date). ClickCreate now date) ts) s = Some s'
     \<and> length (notes s') = length ts + length (notes s)
     \<and> notes s' = rev (map (\<lambda>(now, date). newNote now date) ts) @ notes s
     \<and> distinct (map id_note (notes s')) =
         (distinct (map id_note (notes s)) \<and> distinct (map fst ts)
          \<and> set (map (toString \<circ> fst) ts) \<inter> set (map id_note (notes s)) = {})"
proof -
  from run_creates [of ts s] obtain s' where
    r: "run (map (\<lambda>(now, date). ClickCreate now date) ts) s = Some s'" and
    n: "notes s' = rev (map (\<lambda>(now, date). newNote now date) ts) @ notes s"
    by blast
  have len: "length (notes s') = length ts + length (notes s)" by (simp add: n)
  have "map id_note (notes s') = rev (map (toString \<circ> fst) ts) @ map id_note (notes s)"
    by (simp add: n rev_map [symmetric] ids_of_new_notes del: map_map)
  then have "distinct (map id_note (notes s')) =
      (distinct (map (toString \<circ> fst) ts) \<and> distinct (map id_note (notes s))
       \<and> set (map (toString \<circ> fst) ts) \<inter> set (map id_note (notes s)) = {})"
    by (simp only: distinct_append distinct_rev set_rev)
  then have "distinct (map id_note (notes s')) =
      (distinct (map id_note (notes s)) \<and> distinct (map fst ts)
       \<and> set (map (toString \<circ> fst) ts) \<inter> set (map id_note (notes s)) = {})"
    by (simp only: distinct_new_ids) blast
  with r len n show ?thesis by blast
qed

text \<open>
  Three creates at the clock readings 1, 2 and 3 (the timestamp read one millisecond
  after the id in the second), from the empty collection.
\<close>

theorem C1_creates_prepend_witness:
  "run [ClickCreate 1 1, ClickCreate 2 3, ClickCreate 3 3] (initial []) =
     Some \<lparr>notes = [newNote 3 3, newNote 2 3, newNote 1 1],
           activeNote = Some (newNote 3 3), isEditing = True\<rparr>
   \<and> map id_note [newNote 3 3, newNote 2 3, newNote 1 1] = [''3'', ''2'', ''1'']
   \<and> distinct (map id_note [newNote 3 3, newNote 2 3, newNote 1 1])"
proof -
  have ids: "toString 1 = ''1''" "toString 2 = ''2''" "toString 3 = ''3''"
    by (simp_all add: toString_def digits.simps digit_char_def)
  have r: "run [ClickCreate 1 1, ClickCreate 2 3, ClickCreate 3 3] (initial []) =
     Some \<lparr>notes = [newNote 3 3, newNote 2 3, newNote 1 1],
           activeNote = Some (newNote 3 3), isEditing = True\<rparr>"
    by (simp add: createNewNote_def initial_def)
  from C1_creates_prepend [of "[(1, 1), (2, 3), (3, 3)]" "initial []"] r
  have "distinct (map id_note [newNote 3 3, newNote 2 3, newNote 1 1])"
    by (simp add: initial_def)
  with r ids show ?thesis by (simp add: newNote_def)
qed

text \<open>
  The claim as the specification states it promises distinct ids for every sequence of
  creates. Two creates whose handlers read the same millisecond from
  \<^verbatim>\<open>Date.now()\<close> give two notes with the same id, already from the empty
  collection.
\<close>

theorem C1_same_millisecond_counterexample:
  "\<not> distinct (map id_note (notes (createNewNote 1700000000000 1700000000000
        (createNewNote 1700000000000 1700000000000 (initial [])))))"
  by (simp add: createNewNote_def initial_def)

section \<open>Saving the draft\<close>

lemma map_replace_distinct:
  assumes d: "distinct (map f xs)" and k: "k < length xs" and fk: "f (xs ! k) = i"
  shows "map (\<lambda>n. if f n = i then y else n) xs = xs[k := y]"
proof (rule nth_equalityI)
  show "length (map (\<lambda>n. if f n = i then y else n) xs) = length (xs[k := y])" by simp
next
  fix j assume "j < length (map (\<lambda>n. if f n = i then y else n) xs)"
  then have j: "j < length xs" by simp
  show "map (\<lambda>n. if f n = i then y else n) xs ! j = xs[k := y] ! j"
  proof (cases "j = k")
    case True
    with k fk show ?thesis by simp
  next
    case False
    have "map f xs ! j \<noteq> map f xs ! k"
      using d j k False by (simp only: nth_eq_iff_index_eq length_map not_False_eq_True)
    with j k fk have "f (xs ! j) \<noteq> i" by simp
    with j False show ?thesis by simp
  qed
qed

text \<open>
  C2. In a state that is editing the draft \<open>d\<close>, whose id occurs in the collection,
  typing the title \<open>X\<close> and clicking Save succeeds. Afterwards every entry with the
  draft's id is the draft with the title \<open>X\<close> (all its fields, not only the title), and
  every other entry is as before, in the same place; the saved draft is in the
  collection; when the ids of the collection are pairwise distinct, exactly one position
  has been replaced. The saved draft is the active note and the editing flag is off.
\<close>

theorem C2_save_after_title_edit:
  assumes active: "activeNote s = Some d"
    and editing: "isEditing s"
    and present: "id_note d \<in> id_note ` set (notes s)"
  shows "\<exists>s'. run [Type (EditTitle X), ClickSave] s = Some s'
           \<and> notes s' = map (\<lambda>n. if id_note n = id_note d then d\<lparr>title := X\<rparr> else n) (notes s)
           \<and> d\<lparr>title := X\<rparr> \<in> set (notes s')
           \<and> (distinct (map id_note (notes s)) \<longrightarrow>
                (\<exists>k<length (notes s). id_note (notes s ! k) = id_note d
                    \<and> notes s' = (notes s)[k := d\<lparr>title := X\<rparr>]))
           \<and> activeNote s' = Some (d\<lparr>title := X\<rparr>)
           \<and> \<not> isEditing s'"
proof -
  let ?d = "d\<lparr>title := X\<rparr>"
  let ?s1 = "changeDraft (EditTitle X) d s"
  let ?s2 = "updateNote ?d ?s1"
  have step1: "fire (Type (EditTitle X)) s = Some ?s1"
    using active editing by simp
  have s1: "activeNote ?s1 = Some ?d" "isEditing ?s1" "notes ?s1 = notes s"
    using editing by (simp_all add: changeDraft_def)
  have step2: "fire ClickSave ?s1 = Some ?s2"
    using s1 by simp
  have run: "run [Type (EditTitle X), ClickSave] s = Some ?s2"
    using step1 step2 by simp
  have coll: "notes ?s2 = map (\<lambda>n. if id_note n = id_note d then ?d else n) (notes s)"
    using s1(3) by (simp add: updateNote_def)
  from present obtain k where k: "k < length (notes s)" "id_note (notes s ! k) = id_note d"
    by (auto simp: in_set_conv_nth)
  then have mem: "?d \<in> set (notes ?s2)"
    unfolding coll by (force simp: in_set_conv_nth)
  have one: "\<exists>k<length (notes s). id_note (notes s ! k) = id_note d \<and> notes ?s2 = (notes s)[k := ?d]"
    if "distinct (map id_note (notes s))"
    using map_replace_distinct [OF that k] k coll by auto
  have rest: "activeNote ?s2 = Some ?d" "\<not> isEditing ?s2"
    by (simp_all add: updateNote_def)
  from run coll mem one rest show ?thesis by blast
qed

text \<open>
  A collection of two notes; the draft of the first has new content already, and gets
  the title "Groceries".
\<close>

theorem C2_save_after_title_edit_witness:
  "activeNote \<lparr>notes = [\<lparr>id_note = ''2'', title = ''New Note'', content = '''', createdAt = DateObj 2\<rparr>,
                         \<lparr>id_note = ''1'', title = ''Old'', content = ''text'', createdAt = DateObj 1\<rparr>],
                activeNote = Some \<lparr>id_note = ''2'', title = ''New Note'', content = ''milk'', createdAt = DateObj 2\<rparr>,
                isEditing = True\<rparr>
     = Some \<lparr>id_note = ''2'', title = ''New Note'', content = ''milk'', createdAt = DateObj 2\<rparr>
   \<and> run [Type (EditTitle ''Groceries''), ClickSave]
         \<lparr>notes = [\<lparr>id_note = ''2'', title = ''New Note'', content = '''', createdAt = DateObj 2\<rparr>,
                   \<lparr>id_note = ''1'', title = ''Old'', content = ''text'', createdAt = DateObj 1\<rparr>],
          activeNote = Some \<lparr>id_note = ''2'', title = ''New Note'', content = ''milk'', createdAt = DateObj 2\<rparr>,
          isEditing = True\<rparr>
     = Some \<lparr>notes = [\<lparr>id_note = ''2'', title = ''Groceries'', content = ''milk'', createdAt = DateObj 2\<rparr>,
                       \<lparr>id_note = ''1'', title = ''Old'', content = ''text'', createdAt = DateObj 1\<rparr>],
              activeNote = Some \<lparr>id_note = ''2'', title = ''Groceries'', content = ''milk'', createdAt = DateObj 2\<rparr>,
              isEditing = False\<rparr>"
proof -
  let ?d = "\<lparr>id_note = ''2'', title = ''New Note'', content = ''milk'', createdAt = DateObj 2\<rparr>"
  let ?s = "\<lparr>notes = [\<lparr>id_note = ''2'', title = ''New Note'', content = '''', createdAt = DateObj 2\<rparr>,
                     \<lparr>id_note = ''1'', title = ''Old'', content = ''text'', createdAt = DateObj 1\<rparr>],
            activeNote = Some ?d, isEditing = True\<rparr>"
  have h1: "activeNote ?s = Some ?d" by simp
  have h2: "isEditing ?s" by simp
  have h3: "id_note ?d \<in> id_note ` set (notes ?s)" by simp
  from C2_save_after_title_edit [OF h1 h2 h3, of "''Groceries''"]
  show ?thesis by (auto simp: updateNote_def changeDraft_def)
qed

text \<open>
  C10. \<^verbatim>\<open>updateNote\<close> with a note whose id does not occur in the collection
  leaves the collection as it is: the note is not inserted. It becomes the active note,
  and the editing flag is off.
\<close>

theorem C10_save_unknown_id:
  assumes "id_note d \<notin> id_note ` set (notes s)"
  shows "notes (updateNote d s) = notes s
         \<and> activeNote (updateNote d s) = Some d
         \<and> \<not> isEditing (updateNote d s)"
proof -
  have "map (\<lambda>n. if id_note n = id_note d then d else n) (notes s) = notes s"
  proof (rule map_idI)
    fix n assume "n \<in> set (notes s)"
    then have "id_note n \<in> id_note ` set (notes s)" by (rule imageI)
    with assms have "id_note n \<noteq> id_note d" by metis
    then show "(if id_note n = id_note d then d else n) = n" by simp
  qed
  then show ?thesis by (simp add: updateNote_def)
qed

theorem C10_save_unknown_id_witness:
  "id_note \<lparr>id_note = ''7'', title = ''Lost'', content = ''x'', createdAt = DateObj 7\<rparr>
     \<notin> id_note ` set [\<lparr>id_note = ''1'', title = ''Old'', content = ''text'', createdAt = DateObj 1\<rparr>]
   \<and> updateNote \<lparr>id_note = ''7'', title = ''Lost'', content = ''x'', createdAt = DateObj 7\<rparr>
        \<lparr>notes = [\<lparr>id_note = ''1'', title = ''Old'', content = ''text'', createdAt = DateObj 1\<rparr>],
         activeNote = Some \<lparr>id_note = ''7'', title = ''New Note'', content = '''', createdAt = DateObj 7\<rparr>,
         isEditing = True\<rparr>
     = \<lparr>notes = [\<lparr>id_note = ''1'', title = ''Old'', content = ''text'', createdAt = DateObj 1\<rparr>],
        activeNote = Some \<lparr>id_note = ''7'', title = ''Lost'', content = ''x'', createdAt = DateObj 7\<rparr>,
        isEditing = False\<rparr>"
proof -
  let ?d = "\<lparr>id_note = ''7'', title = ''Lost'', content = ''x'', createdAt = DateObj 7\<rparr>"
  let ?s = "\<lparr>notes = [\<lparr>id_note = ''1'', title = ''Old'', content = ''text'', createdAt = DateObj 1\<rparr>],
             activeNote = Some \<lparr>id_note = ''7'', title = ''New Note'', content = '''', createdAt = DateObj 7\<rparr>,
             isEditing = True\<rparr>"
  have h: "id_note ?d \<notin> id_note ` set (notes ?s)" by simp
  from C10_save_unknown_id [OF h] h show ?thesis
    by (simp add: updateNote_def)
qed

section \<open>Deleting a note\<close>

text \<open>
  C4. \<^verbatim>\<open>deleteNote\<close> with the id of the active note removes every entry with
  that id. When entries remain, the first of them becomes the active note and the editing
  flag is off; when none remains, the result is the state with an empty collection, no
  active note and the editing flag off. That is so in particular when the active note
  was the only entry.
\<close>

theorem C4_delete_active:
  assumes "activeNote s = Some a" and "id_note a = i"
  shows "notes (deleteNote i s) = filter (\<lambda>n. id_note n \<noteq> i) (notes s)
         \<and> (notes (deleteNote i s) \<noteq> [] \<longrightarrow>
               activeNote (deleteNote i s) = Some (hd (notes (deleteNote i s)))
               \<and> \<not> isEditing (deleteNote i s))
         \<and> (notes (deleteNote i s) = [] \<longrightarrow> deleteNote i s = initial [])
         \<and> ((\<exists>n. notes s = [n] \<and> id_note n = i) \<longrightarrow> deleteNote i s = initial [])"
  using assms
  by (auto simp: deleteNote_def initial_def Let_def split: list.splits)

text \<open>
  Deleting the active note, which is being edited, from a collection of two, and from a
  collection that holds only that note.
\<close>

theorem C4_delete_active_witness:
  "deleteNote ''2''
     \<lparr>notes = [\<lparr>id_note = ''2'', title = ''New Note'', content = '''', createdAt = DateObj 2\<rparr>,
               \<lparr>id_note = ''1'', title = ''Old'', content = ''text'', createdAt = DateObj 1\<rparr>],
      activeNote = Some \<lparr>id_note = ''2'', title = ''Draft'', content = '''', createdAt = DateObj 2\<rparr>,
      isEditing = True\<rparr>
   = \<lparr>notes = [\<lparr>id_note = ''1'', title = ''Old'', content = ''text'', createdAt = DateObj 1\<rparr>],
      activeNote = Some \<lparr>id_note = ''1'', title = ''Old'', content = ''text'', createdAt = DateObj 1\<rparr>,
      isEditing = False\<rparr>
   \<and> deleteNote ''2''
     \<lparr>notes = [\<lparr>id_note = ''2'', title = ''New Note'', content = '''', createdAt = DateObj 2\<rparr>],
      activeNote = Some \<lparr>id_note = ''2'', title = ''Draft'', content = '''', createdAt = DateObj 2\<rparr>,
      isEditing = True\<rparr>
   = \<lparr>notes = [], activeNote = None, isEditing = False\<rparr>"
proof -
  let ?a = "\<lparr>id_note = ''2'', title = ''Draft'', content = '''', createdAt = DateObj 2\<rparr>"
  let ?n2 = "\<lparr>id_note = ''2'', title = ''New Note'', content = '''', createdAt = DateObj 2\<rparr>"
  let ?n1 = "\<lparr>id_note = ''1'', title = ''Old'', content = ''text'', createdAt = DateObj 1\<rparr>"
  let ?s = "\<lparr>notes = [?n2, ?n1], activeNote = Some ?a, isEditing = True\<rparr>"
  let ?t = "\<lparr>notes = [?n2], activeNote = Some ?a, isEditing = True\<rparr>"
  have id: "id_note ?a = ''2''" by simp
  have hs: "activeNote ?s = Some ?a" by simp
  have ht: "activeNote ?t = Some ?a" by simp
  have two: "deleteNote ''2'' ?s = \<lparr>notes = [?n1], activeNote = Some ?n1, isEditing = False\<rparr>"
    by (simp add: deleteNote_def)
  have one: "deleteNote ''2'' ?t = \<lparr>notes = [], activeNote = None, isEditing = False\<rparr>"
    by (simp add: deleteNote_def)
  from C4_delete_active [OF hs id] C4_delete_active [OF ht id] show ?thesis
    by (simp only: two one simp_thms)
qed

text \<open>
  C5. \<^verbatim>\<open>deleteNote\<close> with an id that is not the active note's (or with no active
  note) removes the entries with that id, keeps every other entry in its order, and
  leaves the active note and the editing flag as they were.
\<close>

theorem C5_delete_other:
  assumes "map_option id_note (activeNote s) \<noteq> Some i"
  shows "notes (deleteNote i s) = filter (\<lambda>n. id_note n \<noteq> i) (notes s)
         \<and> activeNote (deleteNote i s) = activeNote s
         \<and> isEditing (deleteNote i s) = isEditing s"
  using assms by (cases "activeNote s") (simp_all add: deleteNote_def)

text \<open>
  Deleting the second note while a draft of the first is being edited, and deleting a
  note when none is active.
\<close>

theorem C5_delete_other_witness:
  "deleteNote ''1''
     \<lparr>notes = [\<lparr>id_note = ''2'', title = ''New Note'', content = '''', createdAt = DateObj 2\<rparr>,
               \<lparr>id_note = ''1'', title = ''Old'', content = ''text'', createdAt = DateObj 1\<rparr>],
      activeNote = Some \<lparr>id_note = ''2'', title = ''Draft'', content = '''', createdAt = DateObj 2\<rparr>,
      isEditing = True\<rparr>
   = \<lparr>notes = [\<lparr>id_note = ''2'', title = ''New Note'', content = '''', createdAt = DateObj 2\<rparr>],
      activeNote = Some \<lparr>id_note = ''2'', title = ''Draft'', content = '''', createdAt = DateObj 2\<rparr>,
      isEditing = True\<rparr>
   \<and> deleteNote ''1''
     \<lparr>notes = [\<lparr>id_note = ''1'', title = ''Old'', content = ''text'', createdAt = DateObj 1\<rparr>],
      activeNote = None, isEditing = False\<rparr>
   = \<lparr>notes = [], activeNote = None, isEditing = False\<rparr>"
proof -
  let ?a = "\<lparr>id_note = ''2'', title = ''Draft'', content = '''', createdAt = DateObj 2\<rparr>"
  let ?n2 = "\<lparr>id_note = ''2'', title = ''New Note'', content = '''', createdAt = DateObj 2\<rparr>"
  let ?n1 = "\<lparr>id_note = ''1'', title = ''Old'', content = ''text'', createdAt = DateObj 1\<rparr>"
  let ?s = "\<lparr>notes = [?n2, ?n1], activeNote = Some ?a, isEditing = True\<rparr>"
  let ?t = "\<lparr>notes = [?n1], activeNote = None, isEditing = False\<rparr>"
  have hs: "map_option id_note (activeNote ?s) \<noteq> Some ''1''" by simp
  have ht: "map_option id_note (activeNote ?t) \<noteq> Some ''1''" by simp
  have two: "deleteNote ''1'' ?s = \<lparr>notes = [?n2], activeNote = Some ?a, isEditing = True\<rparr>"
    by (simp add: deleteNote_def)
  have one: "deleteNote ''1'' ?t = \<lparr>notes = [], activeNote = None, isEditing = False\<rparr>"
    by (simp add: deleteNote_def)
  from C5_delete_other [OF hs] C5_delete_other [OF ht] show ?thesis
    by (simp only: two one simp_thms)
qed

section \<open>Editing and cancelling\<close>

lemma run_append:
  "run (xs @ ys) s = (case run xs s of None \<Rightarrow> None | Some s' \<Rightarrow> run ys s')"
  by (induction xs arbitrary: s) (auto split: option.splits)

lemma id_note_editDraft: "id_note (editDraft f a) = id_note a"
  by (cases f) simp_all

lemma id_note_fold_editDraft: "id_note (fold editDraft fs a) = id_note a"
  by (induction fs arbitrary: a) (simp_all add: id_note_editDraft)

lemma run_edits:
  "activeNote s = Some a \<Longrightarrow> isEditing s \<Longrightarrow>
   run (map Type fs) s = Some (s\<lparr>activeNote := Some (fold editDraft fs a)\<rparr>)"
proof (induction fs arbitrary: s a)
  case Nil
  then show ?case by simp
next
  case (Cons f fs)
  let ?s1 = "changeDraft f a s"
  have "fire (Type f) s = Some ?s1" using Cons.prems by simp
  moreover have "activeNote ?s1 = Some (editDraft f a)" "isEditing ?s1"
    using Cons.prems by (simp_all add: changeDraft_def)
  ultimately show ?case
    using Cons.IH [of ?s1 "editDraft f a"] by (simp add: changeDraft_def)
qed

text \<open>
  C3. Take a state with an active note \<open>a\<close>. Entering edit mode (the Edit button, when
  the state is not editing already, as it is after a create), then any sequence \<open>fs\<close>
  of changes to the title and the content, possibly empty, then Cancel: every event of
  the sequence is possible; the collection after the changes and the collection after
  Cancel are the collection of the state before; the active note after Cancel is the
  first entry of the collection with the id of \<open>a\<close> (none when there is no such entry),
  and the editing flag is off.
\<close>

theorem C3_cancel_keeps_collection:
  assumes active: "activeNote s = Some a"
  shows "\<exists>s1 s'. run ((if isEditing s then [] else [ClickEdit]) @ map Type fs) s = Some s1
           \<and> notes s1 = notes s
           \<and> run ((if isEditing s then [] else [ClickEdit]) @ map Type fs @ [ClickCancel]) s = Some s'
           \<and> notes s' = notes s
           \<and> activeNote s' = find (\<lambda>n. id_note n = id_note a) (notes s)
           \<and> \<not> isEditing s'"
proof -
  let ?pre = "if isEditing s then [] else [ClickEdit]"
  let ?s0 = "s\<lparr>isEditing := True\<rparr>"
  have pre: "run ?pre s = Some ?s0"
    using active by (simp add: beginEdit_def)
  have s0: "activeNote ?s0 = Some a" "isEditing ?s0" using active by simp_all
  let ?s1 = "?s0\<lparr>activeNote := Some (fold editDraft fs a)\<rparr>"
  have edits: "run (map Type fs) ?s0 = Some ?s1"
    using run_edits [OF s0] .
  have r1: "run (?pre @ map Type fs) s = Some ?s1"
    using pre edits by (simp only: run_append option.case)
  let ?s2 = "cancelEdit (fold editDraft fs a) ?s1"
  have cancel: "run [ClickCancel] ?s1 = Some ?s2" by simp
  have r2: "run (?pre @ map Type fs @ [ClickCancel]) s = Some ?s2"
    using pre edits cancel by (simp only: run_append option.case)
  have "notes ?s1 = notes s" by simp
  moreover have "notes ?s2 = notes s" by (simp add: cancelEdit_def)
  moreover have "activeNote ?s2 = find (\<lambda>n. id_note n = id_note a) (notes s)"
    by (simp add: cancelEdit_def id_note_fold_editDraft)
  moreover have "\<not> isEditing ?s2" by (simp add: cancelEdit_def)
  ultimately show ?thesis using r1 r2 by blast
qed

text \<open>
  Viewing the first of two notes: Edit, a new title, new content, Cancel. The state is
  the one before.
\<close>

theorem C3_cancel_keeps_collection_witness:
  "run [ClickEdit, Type (EditTitle ''Groceries''), Type (EditContent ''milk''), ClickCancel]
     \<lparr>notes = [\<lparr>id_note = ''2'', title = ''New Note'', content = '''', createdAt = DateObj 2\<rparr>,
               \<lparr>id_note = ''1'', title = ''Old'', content = ''text'', createdAt = DateObj 1\<rparr>],
      activeNote = Some \<lparr>id_note = ''2'', title = ''New Note'', content = '''', createdAt = DateObj 2\<rparr>,
      isEditing = False\<rparr>
   = Some
     \<lparr>notes = [\<lparr>id_note = ''2'', title = ''New Note'', content = '''', createdAt = DateObj 2\<rparr>,
               \<lparr>id_note = ''1'', title = ''Old'', content = ''text'', createdAt = DateObj 1\<rparr>],
      activeNote = Some \<lparr>id_note = ''2'', title = ''New Note'', content = '''', createdAt = DateObj 2\<rparr>,
      isEditing = False\<rparr>"
proof -
  let ?n2 = "\<lparr>id_note = ''2'', title = ''New Note'', content = '''', createdAt = DateObj 2\<rparr>"
  let ?n1 = "\<lparr>id_note = ''1'', title = ''Old'', content = ''text'', createdAt = DateObj 1\<rparr>"
  let ?s = "\<lparr>notes = [?n2, ?n1], activeNote = Some ?n2, isEditing = False\<rparr>"
  have h: "activeNote ?s = Some ?n2" by simp
  from C3_cancel_keeps_collection [OF h, of "[EditTitle ''Groceries'', EditContent ''milk'']"]
  obtain s' where
    r: "run [ClickEdit, Type (EditTitle ''Groceries''), Type (EditContent ''milk''), ClickCancel] ?s
          = Some s'"
    and "notes s' = [?n2, ?n1]" and "activeNote s' = Some ?n2" and "\<not> isEditing s'"
    by auto
  then have "s' = ?s" by (cases s') simp
  with r show ?thesis by simp
qed

lemma fire_keeps_active:
  assumes "fire e s = Some s'" and "isEditing s \<longrightarrow> activeNote s \<noteq> None"
  shows "isEditing s' \<longrightarrow> activeNote s' \<noteq> None"
proof (cases e)
  case (ClickDelete k)
  with assms show ?thesis
    by (auto simp: deleteNote_def Let_def split: if_splits option.splits)
next
  case (ClickCreate now date)
  with assms show ?thesis by (auto simp: createNewNote_def)
next
  case (ClickNote k)
  with assms show ?thesis by (auto simp: selectNote_def split: if_splits)
next
  case ClickEdit
  with assms show ?thesis by (auto simp: beginEdit_def split: if_splits option.splits)
next
  case (Type f)
  with assms show ?thesis by (auto simp: changeDraft_def split: if_splits option.splits)
next
  case ClickSave
  with assms show ?thesis by (auto simp: updateNote_def split: if_splits option.splits)
next
  case ClickCancel
  with assms show ?thesis by (auto simp: cancelEdit_def split: if_splits option.splits)
qed

lemma run_keeps_active:
  "run es s = Some s' \<Longrightarrow> (isEditing s \<longrightarrow> activeNote s \<noteq> None) \<Longrightarrow>
   isEditing s' \<longrightarrow> activeNote s' \<noteq> None"
proof (induction es arbitrary: s)
  case Nil
  then show ?case by simp
next
  case (Cons e es)
  from Cons.prems(1) obtain s1 where f: "fire e s = Some s1" and r: "run es s1 = Some s'"
    by (auto split: option.splits)
  from fire_keeps_active [OF f Cons.prems(2)] Cons.IH [OF r] show ?case by blast
qed

text \<open>
  C9. The first render has the loaded collection, no active note and the editing flag
  off. In every state that a sequence of user events reaches from it, whatever the
  loaded collection, the editing flag is on only when there is an active note.
\<close>

theorem C9_editing_has_active:
  assumes "run es (initial ns) = Some s" and "isEditing s"
  shows "activeNote s \<noteq> None"
  using run_keeps_active [OF assms(1)] assms(2) by (simp add: initial_def)

text \<open>
  From the empty collection: create a note, select it, delete it, create another and
  type a title. The state reached is editing.
\<close>

theorem C9_editing_has_active_witness:
  "run [ClickCreate 1 1, ClickNote 0, ClickDelete 0, ClickCreate 2 2, Type (EditTitle ''a'')]
       (initial [])
     = Some \<lparr>notes = [newNote 2 2], activeNote = Some ((newNote 2 2)\<lparr>title := ''a''\<rparr>),
             isEditing = True\<rparr>
   \<and> activeNote \<lparr>notes = [newNote 2 2], activeNote = Some ((newNote 2 2)\<lparr>title := ''a''\<rparr>),
                 isEditing = True\<rparr> \<noteq> None"
proof -
  let ?s = "\<lparr>notes = [newNote 2 2], activeNote = Some ((newNote 2 2)\<lparr>title := ''a''\<rparr>),
             isEditing = True\<rparr>"
  have r: "run [ClickCreate 1 1, ClickNote 0, ClickDelete 0, ClickCreate 2 2,
                Type (EditTitle ''a'')] (initial []) = Some ?s"
    by (simp add: initial_def createNewNote_def selectNote_def deleteNote_def changeDraft_def)
  have e: "isEditing ?s" by simp
  from C9_editing_has_active [OF r e] r show ?thesis by simp
qed

section \<open>Persistence\<close>

lemma asNote_toJSON_note:
  "asNote (toJSON_note toISO n) =
     Some \<lparr>id_note = id_note n, title = title n, content = content n,
           createdAt = (case createdAt n of DateObj ms \<Rightarrow> DateStr (toISO ms) | DateStr t \<Rightarrow> DateStr t)\<rparr>"
  by (cases "createdAt n") (simp_all add: asNote_def toJSON_note_def toJSON_created_def)

lemma asNoteList_toJSON:
  "asNoteList (map (toJSON_note toISO) ns) =
     Some (map (\<lambda>n. \<lparr>id_note = id_note n, title = title n, content = content n,
           createdAt = (case createdAt n of DateObj ms \<Rightarrow> DateStr (toISO ms) | DateStr t \<Rightarrow> DateStr t)\<rparr>) ns)"
  by (induction ns) (simp_all add: asNote_toJSON_note)

lemma loadNotes_saveNotes:
  "loadNotes (saveNotes toISO ns st) =
     Inr (map (\<lambda>n. \<lparr>id_note = id_note n, title = title n, content = content n,
           createdAt = (case createdAt n of DateObj ms \<Rightarrow> DateStr (toISO ms) | DateStr t \<Rightarrow> DateStr t)\<rparr>) ns)"
  by (simp add: loadNotes_def saveNotes_def setItem_def getItem_def JSON_stringify_def
      JSON_parse_def asNotes_def asNoteList_toJSON)

text \<open>
  C6. Writing a collection to the slot and reading the slot back, whatever the storage
  held before, succeeds and gives a collection with as many entries, in the same order,
  with the same ids, titles and contents. A timestamp that was a \<^verbatim>\<open>Date\<close> comes
  back as the string \<^verbatim>\<open>toISOString()\<close> gives for its time value (the ISO format
  has the millisecond precision of the time value); a timestamp that was such a string
  already comes back unchanged.
\<close>

theorem C6_save_then_load:
  "\<exists>ns'. loadNotes (saveNotes toISO ns st) = Inr ns'
     \<and> length ns' = length ns
     \<and> map id_note ns' = map id_note ns
     \<and> map title ns' = map title ns
     \<and> map content ns' = map content ns
     \<and> map createdAt ns' =
         map (\<lambda>n. case createdAt n of DateObj ms \<Rightarrow> DateStr (toISO ms) | DateStr t \<Rightarrow> DateStr t) ns"
  by (simp add: loadNotes_saveNotes comp_def)

text \<open>
  A note created in this session, five milliseconds after the epoch, and a note loaded
  earlier.
\<close>

theorem C6_save_then_load_witness:
  "loadNotes (saveNotes (\<lambda>ms. ''1970-01-01T00:00:00.005Z'')
       [\<lparr>id_note = ''5'', title = ''Groceries'', content = ''milk, eggs'', createdAt = DateObj 5\<rparr>,
        \<lparr>id_note = ''1'', title = ''Old'', content = ''text'',
         createdAt = DateStr ''1970-01-01T00:00:00.001Z''\<rparr>]
       Map.empty)
   = Inr [\<lparr>id_note = ''5'', title = ''Groceries'', content = ''milk, eggs'',
           createdAt = DateStr ''1970-01-01T00:00:00.005Z''\<rparr>,
          \<lparr>id_note = ''1'', title = ''Old'', content = ''text'',
           createdAt = DateStr ''1970-01-01T00:00:00.001Z''\<rparr>]"
proof -
  let ?ns = "[\<lparr>id_note = ''5'', title = ''Groceries'', content = ''milk, eggs'', createdAt = DateObj 5\<rparr>,
        \<lparr>id_note = ''1'', title = ''Old'', content = ''text'',
         createdAt = DateStr ''1970-01-01T00:00:00.001Z''\<rparr>]"
  from C6_save_then_load [of "\<lambda>ms. ''1970-01-01T00:00:00.005Z''" ?ns Map.empty]
  obtain ns' where l: "loadNotes (saveNotes (\<lambda>ms. ''1970-01-01T00:00:00.005Z'') ?ns Map.empty) = Inr ns'"
    and "length ns' = 2"
    and "map id_note ns' = [''5'', ''1'']"
    and "map title ns' = [''Groceries'', ''Old'']"
    and "map content ns' = [''milk, eggs'', ''text'']"
    and "map createdAt ns' = [DateStr ''1970-01-01T00:00:00.005Z'', DateStr ''1970-01-01T00:00:00.001Z'']"
    by auto
  then have "ns' = [\<lparr>id_note = ''5'', title = ''Groceries'', content = ''milk, eggs'',
           createdAt = DateStr ''1970-01-01T00:00:00.005Z''\<rparr>,
          \<lparr>id_note = ''1'', title = ''Old'', content = ''text'',
           createdAt = DateStr ''1970-01-01T00:00:00.001Z''\<rparr>]"
    by (auto simp: length_Suc_conv numeral_2_eq_2)
  with l show ?thesis by simp
qed

lemma fire_notes_unchanged:
  "fire e s = Some s' \<Longrightarrow> \<not> setsNotes e \<Longrightarrow> notes s' = notes s"
  by (cases e)
     (auto simp: selectNote_def beginEdit_def changeDraft_def cancelEdit_def
           split: if_splits option.splits)

lemma dispatch_slot:
  assumes "dispatch toISO e (s, st) = Some (s', st')"
    and "st = st0(''notes'' \<mapsto> JSON_stringify toISO (notes s))"
  shows "st' = st0(''notes'' \<mapsto> JSON_stringify toISO (notes s'))"
proof (cases "setsNotes e")
  case True
  with assms show ?thesis
    by (auto simp: dispatch_def saveNotes_def setItem_def split: option.splits)
next
  case False
  with assms obtain "fire e s = Some s'" and "st' = st"
    by (auto simp: dispatch_def split: option.splits)
  with False assms(2) fire_notes_unchanged [of e s s'] show ?thesis by simp
qed

lemma dispatchAll_slot:
  "dispatchAll toISO es (s, st) = Some (s', st') \<Longrightarrow>
   st = st0(''notes'' \<mapsto> JSON_stringify toISO (notes s)) \<Longrightarrow>
   st' = st0(''notes'' \<mapsto> JSON_stringify toISO (notes s'))"
proof (induction es arbitrary: s st)
  case Nil
  then show ?case by auto
next
  case (Cons e es)
  from Cons.prems(1) obtain s1 st1 where
    d: "dispatch toISO e (s, st) = Some (s1, st1)" and
    r: "dispatchAll toISO es (s1, st1) = Some (s', st')"
    by (auto split: option.splits)
  from dispatch_slot [OF d Cons.prems(2)] Cons.IH [OF r] show ?case by blast
qed

text \<open>
  C7. When the component mounts on a storage \<open>st0\<close>, the collection of the first
  render is the one loaded from \<open>st0\<close>, and the storage after the first effect is
  \<open>st0\<close> with the slot \<^verbatim>\<open>'notes'\<close> overwritten by the serialization of that
  collection. From any state, after an event whose handler calls \<^verbatim>\<open>setNotes\<close>
  (create, save, delete), the storage is the one before with the slot overwritten by the
  serialization of the new collection. And after any sequence of events since the mount,
  the storage is \<open>st0\<close> with the slot holding exactly the serialization of the current
  collection: nothing of an older value of the slot is left, and no other key is
  touched.
\<close>

theorem C7_slot_holds_collection:
  "(mount toISO st0 = Inr (s0, st1) \<longrightarrow>
      loadNotes st0 = Inr (notes s0) \<and> st1 = st0(''notes'' \<mapsto> JSON_stringify toISO (notes s0)))
   \<and> (setsNotes e \<and> dispatch toISO e (s, st) = Some (s', st') \<longrightarrow>
        st' = st(''notes'' \<mapsto> JSON_stringify toISO (notes s')))
   \<and> (mount toISO st0 = Inr sys0 \<and> dispatchAll toISO es sys0 = Some (s2, st2) \<longrightarrow>
        st2 = st0(''notes'' \<mapsto> JSON_stringify toISO (notes s2)))"
proof -
  have boot: "loadNotes st0 = Inr (notes s0) \<and> st1 = st0(''notes'' \<mapsto> JSON_stringify toISO (notes s0))"
    if "mount toISO st0 = Inr (s0, st1)"
    using that by (auto simp: mount_def initial_def saveNotes_def setItem_def split: sum.splits)
  have step: "st' = st(''notes'' \<mapsto> JSON_stringify toISO (notes s'))"
    if "setsNotes e \<and> dispatch toISO e (s, st) = Some (s', st')"
    using that by (auto simp: dispatch_def saveNotes_def setItem_def split: option.splits)
  have inv: "st2 = st0(''notes'' \<mapsto> JSON_stringify toISO (notes s2))"
    if a: "mount toISO st0 = Inr sys0 \<and> dispatchAll toISO es sys0 = Some (s2, st2)"
  proof -
    obtain s0 st1 where sys0: "sys0 = (s0, st1)" by (cases sys0)
    with a have "st1 = st0(''notes'' \<mapsto> JSON_stringify toISO (notes s0))"
      by (auto simp: mount_def initial_def saveNotes_def setItem_def split: sum.splits)
    with a sys0 dispatchAll_slot [of toISO es s0 st1 s2 st2 st0] show ?thesis by simp
  qed
  from boot step inv show ?thesis by blast
qed

text \<open>
  Mounting on a storage that has another key and no slot \<^verbatim>\<open>'notes'\<close>, then
  creating a note, typing a title and saving.
\<close>

theorem C7_slot_holds_collection_witness:
  "mount (\<lambda>ms. ''1970-01-01T00:00:00.005Z'') (Map.empty(''theme'' \<mapsto> OtherText))
     = Inr (initial [], [''theme'' \<mapsto> OtherText, ''notes'' \<mapsto> JsonText (JArr [])])
   \<and> dispatchAll (\<lambda>ms. ''1970-01-01T00:00:00.005Z'')
        [ClickCreate 5 5, Type (EditTitle ''a''), ClickSave]
        (initial [], [''theme'' \<mapsto> OtherText, ''notes'' \<mapsto> JsonText (JArr [])])
     = Some (\<lparr>notes = [\<lparr>id_note = ''5'', title = ''a'', content = '''', createdAt = DateObj 5\<rparr>],
              activeNote = Some \<lparr>id_note = ''5'', title = ''a'', content = '''', createdAt = DateObj 5\<rparr>,
              isEditing = False\<rparr>,
             [''theme'' \<mapsto> OtherText,
              ''notes'' \<mapsto> JsonText (JArr [JObj [(''id'', JStr ''5''), (''title'', JStr ''a''),
                  (''content'', JStr ''''), (''createdAt'', JStr ''1970-01-01T00:00:00.005Z'')]])])"
proof -
  let ?T = "\<lambda>ms::int. ''1970-01-01T00:00:00.005Z''"
  let ?st0 = "Map.empty(''theme'' \<mapsto> OtherText)"
  let ?st1 = "[''theme'' \<mapsto> OtherText, ''notes'' \<mapsto> JsonText (JArr [])]"
  let ?n = "\<lparr>id_note = ''5'', title = ''a'', content = '''', createdAt = DateObj 5\<rparr>"
  let ?s2 = "\<lparr>notes = [?n], activeNote = Some ?n, isEditing = False\<rparr>"
  let ?es = "[ClickCreate 5 5, Type (EditTitle ''a''), ClickSave]"
  have id5: "toString 5 = ''5''" by (simp add: toString_def digits.simps digit_char_def)
  have m: "mount ?T ?st0 = Inr (initial [], ?st1)"
    by (simp add: mount_def loadNotes_def getItem_def saveNotes_def setItem_def JSON_stringify_def)
  obtain st2 where d: "dispatchAll ?T ?es (initial [], ?st1) = Some (?s2, st2)"
    by (simp add: dispatch_def initial_def createNewNote_def newNote_def changeDraft_def
        updateNote_def id5)
  from C7_slot_holds_collection [where toISO = ?T and ?st0.0 = ?st0 and ?sys0.0 = "(initial [], ?st1)"
      and es = ?es and ?s2.0 = ?s2 and ?st2.0 = st2] m d
  have "st2 = ?st0(''notes'' \<mapsto> JSON_stringify ?T (notes ?s2))" by blast
  then have "st2 = [''theme'' \<mapsto> OtherText,
              ''notes'' \<mapsto> JsonText (JArr [JObj [(''id'', JStr ''5''), (''title'', JStr ''a''),
                  (''content'', JStr ''''), (''createdAt'', JStr ''1970-01-01T00:00:00.005Z'')]])]"
    by (simp add: JSON_stringify_def toJSON_note_def toJSON_created_def)
  with m d show ?thesis by simp
qed

end
